theory Spec2Isabelle
  imports Main "HOL-Library.Word"
begin

unbundle bit_operations_syntax

section \<open>Conventions of the embedding\<close>

text \<open>
  The program is the TypeScript package bloomit: \<^verbatim>\<open>utils.ts\<close> (hashing and bit helpers),
  \<^verbatim>\<open>encoding.ts\<close> (the 8-byte codec) and \<^verbatim>\<open>bloom-filter.ts\<close> (the class \<^verbatim>\<open>BloomFilter\<close>).

  \<^item> A JavaScript \<^verbatim>\<open>number\<close> that holds a size, a count, a seed, an index or a hash is a
    \<open>nat\<close>. A number is a double: where the program adds or multiplies two of them, or
    raises one to a power, the result is the double nearest to the exact result, which is
    \<open>binary64\<close> of it below; \<^verbatim>\<open>%\<close> and a division by a power of two are exact. An argument
    \<open>x\<close> that a caller passes as a number is a double itself: \<open>binary64 x = x\<close>, which
    every natural number up to \<open>2 ^ 53\<close> satisfies. A size is at least 1 in every claim; of
    a size 0, for which \<^verbatim>\<open>%\<close> gives \<^verbatim>\<open>NaN\<close>, nothing is stated.
  \<^item> An element of a \<^verbatim>\<open>Uint8Array\<close> is an \<open>8 word\<close>, the array an \<open>8 word list\<close>. Reading it
    out of range gives \<^verbatim>\<open>undefined\<close> (\<open>None\<close>), writing it out of range does nothing, and
    allocating one raises \<^verbatim>\<open>RangeError\<close> when it is longer than the language allows or than
    the engine can allocate. What the engine can allocate is the parameter \<open>can_allocate\<close>
    of the constructor and of \<^verbatim>\<open>import\<close>, the same for the calls of one statement, and
    every theorem holds for every \<open>can_allocate\<close>.
  \<^item> The operands of \<^verbatim>\<open>|\<close>, \<^verbatim>\<open>&\<close>, \<^verbatim>\<open><<\<close> and \<^verbatim>\<open>>>\<close> are converted to 32-bit integers by the
    language: they are \<open>32 word\<close>s here, \<^verbatim>\<open>>>\<close> is the arithmetic shift and a shift count is
    taken modulo 32.
  \<^item> \<^verbatim>\<open>XXH.h32\<close> comes from the library xxhashjs, which is not part of the package: it is
    the parameter \<open>h32\<close> of every function that hashes, and every theorem holds for every
    \<open>h32\<close>.
  \<^item> A \<^verbatim>\<open>throw\<close> is the \<open>Inl\<close> of a sum; a loop that may run forever returns an \<open>option\<close>,
    and \<open>None\<close> is the run that never returns.
\<close>

datatype error = MaxIterationsExceeded | RangeError

section \<open>utils.ts\<close>

subsection \<open>Numbers\<close>

text \<open>
  The distance between neighbouring doubles at \<open>x\<close>: 1 below \<open>2 ^ 53\<close>, and twice as much
  each time \<open>x\<close> doubles.
\<close>

function ulp :: "nat \<Rightarrow> nat" where
  "ulp x = (if x < 2 ^ 53 then 1 else 2 * ulp (x div 2))"
  by pat_completeness auto
termination
  by (relation "measure (\<lambda>x. x)") auto

declare ulp.simps [simp del]

text \<open>
  The double nearest to the natural number \<open>x\<close>, a tie going to the even significand: the
  value of a sum or product of numbers whose exact value is \<open>x\<close>. (Numbers of \<open>2 ^ 1024\<close>
  and more, which are \<^verbatim>\<open>Infinity\<close>, do not occur.)
\<close>

definition binary64 :: "nat \<Rightarrow> nat" where
  "binary64 x =
     (let u = ulp x; q = x div u; r = x mod u
      in if u < 2 * r \<or> (u = 2 * r \<and> odd q) then (q + 1) * u else q * u)"




subsection \<open>Hashing\<close>

definition hashTwice :: "('e \<Rightarrow> nat \<Rightarrow> nat) \<Rightarrow> 'e \<Rightarrow> nat \<Rightarrow> nat \<times> nat" where
  "hashTwice h32 v seed = (h32 v (binary64 (seed + 1)), h32 v (binary64 (seed + 2)))"


subsection \<open>getDistinctIndices\<close>

text \<open>The local variables of \<^verbatim>\<open>getDistinctIndices\<close> that the loop updates.\<close>

record loop_state =
  st_first :: nat
  st_second :: nat
  st_i :: nat
  st_seed :: nat
  st_indices :: "nat list"

text \<open>
  One pass through the body of the \<^verbatim>\<open>while\<close> loop, up to and including the reseeding
  \<^verbatim>\<open>if(i > size)\<close>. \<^verbatim>\<open>i++\<close> and \<^verbatim>\<open>seed++\<close> add 1 to a double: at \<open>2 ^ 53\<close> they change
  nothing any more.
\<close>

definition loop_body :: "('e \<Rightarrow> nat \<Rightarrow> nat) \<Rightarrow> 'e \<Rightarrow> nat \<Rightarrow> loop_state \<Rightarrow> loop_state" where
  "loop_body h32 element sz s =
     (let index = st_first s mod sz;
          indices' = (if index \<notin> set (st_indices s) then st_indices s @ [index] else st_indices s);
          first' = binary64 (st_first s + st_second s) mod sz;
          second' = binary64 (st_second s + st_i s) mod sz;
          i' = binary64 (st_i s + 1)
      in if i' > sz
         then let seed' = binary64 (st_seed s + 1)
              in \<lparr>st_first = fst (hashTwice h32 element seed'),
                  st_second = snd (hashTwice h32 element seed'),
                  st_i = i', st_seed = seed', st_indices = indices'\<rparr>
         else \<lparr>st_first = first', st_second = second',
               st_i = i', st_seed = st_seed s, st_indices = indices'\<rparr>)"

text \<open>
  The loop. \<^verbatim>\<open>if(maxIterations && i > maxIterations) throw\<close>: a ceiling of 0 is falsy and
  switches the check off.
\<close>

partial_function (option) getDistinctIndices_loop ::
  "('e \<Rightarrow> nat \<Rightarrow> nat) \<Rightarrow> 'e \<Rightarrow> nat \<Rightarrow> nat \<Rightarrow> nat \<Rightarrow> loop_state \<Rightarrow> (error + nat list) option"
where
  "getDistinctIndices_loop h32 element sz number maxIterations s =
     (if length (st_indices s) < number
      then (if maxIterations \<noteq> 0 \<and> st_i (loop_body h32 element sz s) > maxIterations
            then Some (Inl MaxIterationsExceeded)
            else getDistinctIndices_loop h32 element sz number maxIterations
                   (loop_body h32 element sz s))
      else Some (Inr (st_indices s)))"

text \<open>
  The two optional parameters are \<open>option\<close>s: \<open>None\<close> is the omitted argument, which takes
  the default (\<^verbatim>\<open>seed = 0\<close>, \<^verbatim>\<open>maxIterations = size * 100\<close>).
\<close>

definition init_state :: "('e \<Rightarrow> nat \<Rightarrow> nat) \<Rightarrow> 'e \<Rightarrow> nat \<Rightarrow> loop_state" where
  "init_state h32 element seed =
     \<lparr>st_first = fst (hashTwice h32 element seed),
      st_second = snd (hashTwice h32 element seed),
      st_i = 1, st_seed = seed, st_indices = []\<rparr>"

definition getDistinctIndices ::
  "('e \<Rightarrow> nat \<Rightarrow> nat) \<Rightarrow> 'e \<Rightarrow> nat \<Rightarrow> nat \<Rightarrow> nat option \<Rightarrow> nat option \<Rightarrow> (error + nat list) option"
where
  "getDistinctIndices h32 element sz number seed_arg maxIterations_arg =
     (let seed = (case seed_arg of None \<Rightarrow> 0 | Some x \<Rightarrow> x);
          maxIterations =
            (case maxIterations_arg of None \<Rightarrow> binary64 (sz * 100) | Some m \<Rightarrow> m)
      in getDistinctIndices_loop h32 element sz number maxIterations (init_state h32 element seed))"

subsection \<open>Typed arrays\<close>

text \<open>
  \<^verbatim>\<open>new Uint8Array(n)\<close> gives \<open>n\<close> zero bytes. It raises \<^verbatim>\<open>RangeError\<close> when \<open>n\<close> is above
  \<open>2 ^ 53 - 1\<close>, by the language, and when the engine cannot allocate \<open>n\<close> bytes, which
  depends on the engine and its memory: \<open>can_allocate n\<close> says that it can.
\<close>

definition new_Uint8Array :: "(nat \<Rightarrow> bool) \<Rightarrow> nat \<Rightarrow> error + 8 word list" where
  "new_Uint8Array can_allocate n =
     (if n \<le> 2 ^ 53 - 1 \<and> can_allocate n then Inr (replicate n 0) else Inl RangeError)"

text \<open>\<^verbatim>\<open>array[k]\<close>: \<open>None\<close> is \<^verbatim>\<open>undefined\<close>, the value read out of range.\<close>

definition uint8_get :: "8 word list \<Rightarrow> nat \<Rightarrow> 8 word option" where
  "uint8_get array k = (if k < length array then Some (array ! k) else None)"

text \<open>
  \<^verbatim>\<open>array[k] = v\<close>: the low 8 bits of \<open>v\<close> are stored; out of range nothing is stored and
  nothing is raised.
\<close>

definition uint8_put :: "8 word list \<Rightarrow> nat \<Rightarrow> 32 word \<Rightarrow> 8 word list" where
  "uint8_put array k v = (if k < length array then array[k := ucast v] else array)"

text \<open>
  The operand of a bitwise operator as a 32-bit integer: \<^verbatim>\<open>undefined\<close> counts as 0, a byte
  as itself.
\<close>

fun toInt32 :: "8 word option \<Rightarrow> 32 word" where
  "toInt32 None = 0"
| "toInt32 (Some b) = ucast b"

text \<open>\<^verbatim>\<open>array.slice(a, b)\<close> for \<open>a \<le> b\<close>: both ends are clamped to the length.\<close>

definition slice :: "'a list \<Rightarrow> nat \<Rightarrow> nat \<Rightarrow> 'a list" where
  "slice array a b = take (b - a) (drop a array)"

text \<open>
  \<^verbatim>\<open>array.set(source, offset)\<close>, called only where \<open>source\<close> fits into \<open>array\<close> at \<open>offset\<close>.
\<close>

definition uint8_set :: "8 word list \<Rightarrow> 8 word list \<Rightarrow> nat \<Rightarrow> 8 word list" where
  "uint8_set array source offset =
     take offset array @ source @ drop (offset + length source) array"

subsection \<open>Bit helpers\<close>

text \<open>
  \<^verbatim>\<open>(bitCount + bitFill) / 8\<close>: the sum is a double, and \<^verbatim>\<open>/\<close> is the division of numbers. The
  sum of a double \<open>bitCount\<close> and its fill is a multiple of 8, also after it is rounded, so
  the quotient is the integer quotient.
\<close>

definition getUint8ArrayLength :: "nat \<Rightarrow> nat" where
  "getUint8ArrayLength bitCount =
     (let remainder = bitCount mod 8;
          bitFill = 8 - remainder
      in binary64 (bitCount + bitFill) div 8)"

definition getByteIndexInArray :: "nat \<Rightarrow> nat" where
  "getByteIndexInArray bitIndex = bitIndex div 8"

definition getBitIndex :: "nat \<Rightarrow> nat" where
  "getBitIndex bitIndex = bitIndex mod 8"

definition setBitInByte :: "nat \<Rightarrow> 32 word \<Rightarrow> 32 word" where
  "setBitInByte indexInByte byte =
     (let byteOR = push_bit (indexInByte mod 32) (1 :: 32 word)
      in byte OR byteOR)"

definition getBitAtIndex :: "8 word list \<Rightarrow> nat \<Rightarrow> 32 word" where
  "getBitAtIndex array bitIndex =
     (let byte = uint8_get array (getByteIndexInArray bitIndex);
          indexInByte = getBitIndex bitIndex;
          byteAND = setBitInByte indexInByte 0
      in signed_drop_bit (indexInByte mod 32) (toInt32 byte AND byteAND))"

section \<open>encoding.ts\<close>

text \<open>
  \<^verbatim>\<open>int32ToUint8Array\<close>: the loop runs \<open>index\<close> from 3 down to 0; \<^verbatim>\<open>n & 0xff\<close> and \<^verbatim>\<open>n >>= 8\<close>
  work on \<open>n\<close> as a 32-bit integer.
\<close>

fun int32ToUint8Array_loop :: "nat \<Rightarrow> 32 word \<Rightarrow> 8 word list \<Rightarrow> 8 word list" where
  "int32ToUint8Array_loop 0 n bytes = uint8_put bytes 0 (n AND 0xff)"
| "int32ToUint8Array_loop (Suc index) n bytes =
     int32ToUint8Array_loop index (signed_drop_bit 8 n) (uint8_put bytes (Suc index) (n AND 0xff))"

definition int32ToUint8Array :: "nat \<Rightarrow> 8 word list" where
  "int32ToUint8Array n = int32ToUint8Array_loop 3 (of_nat n) (replicate 4 0)"

text \<open>
  \<^verbatim>\<open>uint8ArrayToInt64\<close> adds \<^verbatim>\<open>byte * 2 ** (56 - index * 8)\<close> over the entries, from the first
  byte on; each sum is a double. (The product is a byte times a power of two, which is a
  double as it stands. The callers pass slices of at most 8 bytes, for which the exponent
  is not negative.)
\<close>

fun uint8ArrayToInt64_loop :: "nat \<Rightarrow> nat \<Rightarrow> 8 word list \<Rightarrow> nat" where
  "uint8ArrayToInt64_loop int64 index [] = int64"
| "uint8ArrayToInt64_loop int64 index (byte # rest) =
     uint8ArrayToInt64_loop (binary64 (int64 + unat byte * 2 ^ (56 - index * 8))) (index + 1) rest"

definition uint8ArrayToInt64 :: "8 word list \<Rightarrow> nat" where
  "uint8ArrayToInt64 byteArray = uint8ArrayToInt64_loop 0 0 byteArray"

text \<open>
  \<^verbatim>\<open>int64ToUint8Array\<close>: \<^verbatim>\<open>n / 2 ** 32\<close> is a division of numbers, whose fraction the conversion
  to a 32-bit integer drops.
\<close>

definition int64ToUint8Array :: "nat \<Rightarrow> 8 word list" where
  "int64ToUint8Array n =
     (let part1 = int32ToUint8Array (n div 2 ^ 32);
          part2 = int32ToUint8Array n;
          array = replicate (length part1 + length part2) 0
      in uint8_set (uint8_set array part1 0) part2 (length part1))"

section \<open>bloom-filter.ts\<close>

record BloomFilter =
  bf_size :: nat
  bf_nbHashes :: nat
  bf_filter :: "8 word list"
  bf_length :: nat
  bf_seed :: nat

text \<open>
  The constructor; \<open>0x1234567890\<close> is the seed of every new filter. \<^verbatim>\<open>export\<close> allocates as
  well; its allocation, of 32 bytes more than a buffer that exists, is taken to succeed.
\<close>

definition BloomFilter_new :: "(nat \<Rightarrow> bool) \<Rightarrow> nat \<Rightarrow> nat \<Rightarrow> error + BloomFilter" where
  "BloomFilter_new can_allocate sz nbHashes =
     (case new_Uint8Array can_allocate (getUint8ArrayLength sz) of
        Inl e \<Rightarrow> Inl e
      | Inr array \<Rightarrow>
          Inr \<lparr>bf_size = sz, bf_nbHashes = nbHashes, bf_filter = array,
               bf_length = 0, bf_seed = 0x1234567890\<rparr>)"

definition BloomFilter_import :: "(nat \<Rightarrow> bool) \<Rightarrow> 8 word list \<Rightarrow> error + BloomFilter" where
  "BloomFilter_import can_allocate binaryBloomFilter =
     (let seedArray = slice binaryBloomFilter 0 8;
          nbHashesArray = slice binaryBloomFilter 8 16;
          lengthArray = slice binaryBloomFilter 16 24;
          sizeArray = slice binaryBloomFilter 24 32;
          filterArray = slice binaryBloomFilter 32 (length binaryBloomFilter)
      in case BloomFilter_new can_allocate (uint8ArrayToInt64 sizeArray)
                (uint8ArrayToInt64 nbHashesArray) of
           Inl e \<Rightarrow> Inl e
         | Inr bloomFilter \<Rightarrow>
             Inr (bloomFilter\<lparr>bf_seed := uint8ArrayToInt64 seedArray,
                               bf_length := uint8ArrayToInt64 lengthArray,
                               bf_filter := filterArray\<rparr>))"

text \<open>The loop of \<^verbatim>\<open>add\<close> over the indexes, on the bit buffer.\<close>

fun add_loop :: "8 word list \<Rightarrow> nat list \<Rightarrow> 8 word list" where
  "add_loop array [] = array"
| "add_loop array (index # indexes) =
     (let indexToEdit = getByteIndexInArray index;
          byteToEdit = uint8_get array indexToEdit;
          editedByte = setBitInByte (getBitIndex index) (toInt32 byteToEdit)
      in add_loop (uint8_put array indexToEdit editedByte) indexes)"

text \<open>
  \<^verbatim>\<open>add\<close> changes the filter it is called on: the result is the outcome of the call (\<open>Inl\<close>
  the error thrown) together with the filter after the call. \<^verbatim>\<open>this._length++\<close> adds 1 to a
  double.
\<close>

definition BloomFilter_add ::
  "('e \<Rightarrow> nat \<Rightarrow> nat) \<Rightarrow> BloomFilter \<Rightarrow> 'e \<Rightarrow> ((error + unit) \<times> BloomFilter) option"
where
  "BloomFilter_add h32 this element =
     (case getDistinctIndices h32 element (bf_size this) (bf_nbHashes this)
             (Some (bf_seed this)) None of
        None \<Rightarrow> None
      | Some (Inl e) \<Rightarrow> Some (Inl e, this)
      | Some (Inr indexes) \<Rightarrow>
          Some (Inr (), this\<lparr>bf_filter := add_loop (bf_filter this) indexes,
                             bf_length := binary64 (bf_length this + 1)\<rparr>))"

fun has_loop :: "8 word list \<Rightarrow> nat list \<Rightarrow> bool" where
  "has_loop array [] = True"
| "has_loop array (index # indexes) =
     (if getBitAtIndex array index = 0 then False else has_loop array indexes)"

definition BloomFilter_has ::
  "('e \<Rightarrow> nat \<Rightarrow> nat) \<Rightarrow> BloomFilter \<Rightarrow> 'e \<Rightarrow> (error + bool) option"
where
  "BloomFilter_has h32 this element =
     (case getDistinctIndices h32 element (bf_size this) (bf_nbHashes this)
             (Some (bf_seed this)) None of
        None \<Rightarrow> None
      | Some (Inl e) \<Rightarrow> Some (Inl e)
      | Some (Inr indexes) \<Rightarrow> Some (Inr (has_loop (bf_filter this) indexes)))"



text \<open>
  The copying loop of \<^verbatim>\<open>export\<close>: \<open>exportArrayIndex\<close> is \<open>32 + index\<close> throughout, and
  \<open>todo\<close> counts the passes that remain. The number read from the bit buffer is between
  0 and 255; it is carried as a 32-bit integer, of which the low 8 bits are stored.
\<close>

fun export_loop :: "8 word list \<Rightarrow> nat \<Rightarrow> nat \<Rightarrow> 8 word list \<Rightarrow> 8 word list" where
  "export_loop array 0 index exportArray = exportArray"
| "export_loop array (Suc todo) index exportArray =
     export_loop array todo (index + 1)
       (uint8_put exportArray (32 + index) (toInt32 (uint8_get array index)))"

definition BloomFilter_export :: "BloomFilter \<Rightarrow> 8 word list" where
  "BloomFilter_export this =
     (let exportArray = replicate (length (bf_filter this) + 4 * 8) 0;
          exportArray = uint8_set exportArray (int64ToUint8Array (bf_seed this)) 0;
          exportArray = uint8_set exportArray (int64ToUint8Array (bf_nbHashes this)) 8;
          exportArray = uint8_set exportArray (int64ToUint8Array (bf_length this)) 16;
          exportArray = uint8_set exportArray (int64ToUint8Array (bf_size this)) 24
      in export_loop (bf_filter this) (length (bf_filter this)) 0 exportArray)"

text \<open>
  A client that calls \<^verbatim>\<open>add\<close> for each element of a list in turn, every call returning
  normally: the filter after the last call.
\<close>

fun add_all :: "('e \<Rightarrow> nat \<Rightarrow> nat) \<Rightarrow> BloomFilter \<Rightarrow> 'e list \<Rightarrow> BloomFilter option" where
  "add_all h32 this [] = Some this"
| "add_all h32 this (element # elements) =
     (case BloomFilter_add h32 this element of
        Some (Inr u, this') \<Rightarrow> add_all h32 this' elements
      | _ \<Rightarrow> None)"


section \<open>Definitions of the statements\<close>

text \<open>
  The decoding that the specification gives for a header field (its section 4.4): the
  integer that weights each byte by \<open>256 ^ (7 - index)\<close>, that is, the bytes read as a
  big-endian unsigned integer. It is compared below with \<^verbatim>\<open>uint8ArrayToInt64\<close>, and the
  bytes that \<^verbatim>\<open>int64ToUint8Array\<close> writes are read with it.
\<close>

definition decodeU64_spec :: "8 word list \<Rightarrow> nat" where
  "decodeU64_spec bytes =
     sum_list (map (\<lambda>(index, byte). unat byte * 256 ^ (7 - index)) (enumerate 0 bytes))"


text \<open>
  The external hash and the memory of the engine are parameters. Where a statement is
  evaluated at a concrete input, \<open>sample_h32\<close> stands for the hash, and \<open>enough_memory\<close>
  for an engine that allocates every array the language allows.
\<close>

definition enough_memory :: "nat \<Rightarrow> bool" where
  "enough_memory n = True"

definition sample_h32 :: "string \<Rightarrow> nat \<Rightarrow> nat" where
  "sample_h32 v seed = (2654435761 * (length v + seed) + 40503 * length v) mod 2 ^ 32"

section \<open>Rounding to a double\<close>

lemma ulp_small: "x < 2 ^ 53 \<Longrightarrow> ulp x = 1"
  by (subst ulp.simps) simp

lemma ulp_pos: "0 < ulp x"
  by (induction x rule: ulp.induct) (subst ulp.simps, simp)

lemma ulp_large: "2 ^ 53 \<le> x \<Longrightarrow> 2 \<le> ulp x \<and> 2 ^ 52 \<le> x div ulp x"
proof (induction x rule: ulp.induct)
  case (1 x)
  from "1.prems" have u: "ulp x = 2 * ulp (x div 2)"
    by (subst ulp.simps) simp
  show ?case
  proof (cases "x div 2 < 2 ^ 53")
    case True
    with "1.prems" show ?thesis by (simp add: u ulp_small)
  next
    case False
    with "1.IH" "1.prems" have "2 \<le> ulp (x div 2)" "2 ^ 52 \<le> x div 2 div ulp (x div 2)"
      by simp_all
    then show ?thesis by (simp add: u div_mult2_eq)
  qed
qed

lemma binary64_exact: "x \<le> 2 ^ 53 \<Longrightarrow> binary64 x = x"
proof (cases "x < 2 ^ 53")
  case True
  then show ?thesis by (simp add: binary64_def ulp_small)
next
  case False
  assume "x \<le> 2 ^ 53"
  with False have x: "x = 2 ^ 53" by simp
  have "ulp (2 ^ 53) = 2"
    by (subst ulp.simps) (simp add: ulp_small)
  then show ?thesis by (simp add: binary64_def x)
qed


lemma binary64_stuck: "binary64 (2 ^ 53 + 1) = 2 ^ 53"
proof -
  have "ulp (2 ^ 53 + 1) = 2"
    by (subst ulp.simps) (simp add: ulp_small)
  then show ?thesis by (simp add: binary64_def)
qed

lemma increment_le: "i \<le> 2 ^ 53 \<Longrightarrow> binary64 (i + 1) \<le> 2 ^ 53"
proof (cases "i < 2 ^ 53")
  case True
  then show ?thesis by (simp add: binary64_exact)
next
  case False
  assume "i \<le> 2 ^ 53"
  with False have "i = 2 ^ 53" by simp
  then show ?thesis using binary64_stuck by simp
qed



lemma binary64_stuck_numeral: "binary64 9007199254740993 = 9007199254740992"
  using binary64_stuck by simp

subsection \<open>The numbers that are doubles\<close>

lemma ulp_dvd_power: "x < 2 ^ (53 + k) \<Longrightarrow> ulp x dvd 2 ^ k"
proof (induction k arbitrary: x)
  case 0
  then show ?case by (simp add: ulp_small)
next
  case (Suc k)
  show ?case
  proof (cases "x < 2 ^ 53")
    case True
    then show ?thesis by (simp add: ulp_small)
  next
    case False
    then have u: "ulp x = 2 * ulp (x div 2)" by (subst ulp.simps) simp
    have "(2::nat) ^ (53 + Suc k) = 2 * 2 ^ (53 + k)" by (simp only: add_Suc_right power_Suc)
    with Suc.prems have "x div 2 < 2 ^ (53 + k)" by linarith
    from Suc.IH[OF this] show ?thesis by (simp add: u)
  qed
qed

lemma power_dvd_ulp: "2 ^ (53 + k) \<le> x \<Longrightarrow> 2 ^ (k + 1) dvd ulp x"
proof (induction k arbitrary: x)
  case 0
  then have "\<not> x < 2 ^ 53" by simp
  then have "ulp x = 2 * ulp (x div 2)" by (subst ulp.simps) simp
  then show ?case by simp
next
  case (Suc k)
  have "(2::nat) ^ 53 \<le> 2 ^ (53 + Suc k)" by (rule power_increasing) simp_all
  with Suc.prems have "\<not> x < 2 ^ 53" by simp
  then have u: "ulp x = 2 * ulp (x div 2)" by (subst ulp.simps) simp
  have "(2::nat) ^ (53 + Suc k) = 2 * 2 ^ (53 + k)" by (simp only: add_Suc_right power_Suc)
  with Suc.prems have "2 ^ (53 + k) \<le> x div 2" by linarith
  from Suc.IH[OF this] show ?case by (simp add: u)
qed



lemma binary64_multiple: "ulp x dvd x \<Longrightarrow> binary64 x = x"
  by (auto simp add: binary64_def Let_def)


lemma binary64_ge_56: "2 ^ 56 \<le> x \<Longrightarrow> 2 ^ 56 \<le> binary64 x"
proof -
  assume a: "2 ^ 56 \<le> x"
  then have "2 ^ (53 + 3) \<le> x" by simp
  from power_dvd_ulp[OF this] have "16 dvd ulp x" by simp
  then have u: "16 \<le> ulp x" using ulp_pos[of x] by (auto dest: dvd_imp_le)
  from a have "2 ^ 53 \<le> x" by simp
  from ulp_large[OF this] have q: "2 ^ 52 \<le> x div ulp x" by simp
  have "(2::nat) ^ 56 = 2 ^ 52 * 16" by simp
  also have "\<dots> \<le> (x div ulp x) * ulp x" using q u by (rule mult_le_mono)
  also have "\<dots> \<le> binary64 x" by (simp add: binary64_def Let_def)
  finally show ?thesis .
qed

lemma binary64_multiple_of_8: "8 dvd x \<Longrightarrow> x < 2 ^ 56 \<Longrightarrow> binary64 x = x"
proof -
  assume a: "8 dvd x" "x < 2 ^ 56"
  then have "x < 2 ^ (53 + 3)" by simp
  from ulp_dvd_power[OF this] have "ulp x dvd 8" by simp
  with a(1) have "ulp x dvd x" by (rule dvd_trans[rotated])
  then show ?thesis by (rule binary64_multiple)
qed


text \<open>The distance between neighbouring doubles, from the magnitude.\<close>

lemma ulp_range: "2 ^ (52 + k) \<le> x \<Longrightarrow> x < 2 ^ (53 + k) \<Longrightarrow> ulp x = 2 ^ k"
proof (induction k arbitrary: x)
  case 0
  then show ?case by (simp add: ulp_small)
next
  case (Suc k)
  have e: "(2::nat) ^ (52 + Suc k) = 2 * 2 ^ (52 + k)" "(2::nat) ^ (53 + Suc k) = 2 * 2 ^ (53 + k)"
    by (simp_all only: add_Suc_right power_Suc)
  have "(2::nat) ^ 53 \<le> 2 ^ (52 + Suc k)" by (rule power_increasing) simp_all
  with Suc.prems(1) have "\<not> x < 2 ^ 53" by simp
  then have u: "ulp x = 2 * ulp (x div 2)" by (subst ulp.simps) simp
  from Suc.prems e have "2 ^ (52 + k) \<le> x div 2" "x div 2 < 2 ^ (53 + k)" by linarith+
  from Suc.IH[OF this] show ?case by (simp add: u)
qed



lemma binary64_2_63: "binary64 9223372036854775808 = 9223372036854775808"
proof -
  have "ulp 9223372036854775808 = 2048" using ulp_range[of 11 9223372036854775808] by simp
  then show ?thesis by (simp add: binary64_def)
qed


section \<open>The hash engine\<close>

subsection \<open>One pass of the loop\<close>

lemma st_i_loop_body: "st_i (loop_body h32 element sz s) = binary64 (st_i s + 1)"
  by (simp add: loop_body_def Let_def)

lemma st_indices_loop_body:
  "st_indices (loop_body h32 element sz s) =
     (if st_first s mod sz \<in> set (st_indices s) then st_indices s
      else st_indices s @ [st_first s mod sz])"
  by (simp add: loop_body_def Let_def)

lemma loop_body_distinct:
  "distinct (st_indices s) \<Longrightarrow> distinct (st_indices (loop_body h32 element sz s))"
  by (simp add: st_indices_loop_body)

lemma loop_body_range:
  "0 < sz \<Longrightarrow> set (st_indices s) \<subseteq> {..<sz} \<Longrightarrow>
   set (st_indices (loop_body h32 element sz s)) \<subseteq> {..<sz}"
  by (simp add: st_indices_loop_body)

lemma loop_body_length:
  "length (st_indices s) < number \<Longrightarrow> length (st_indices (loop_body h32 element sz s)) \<le> number"
  by (simp add: st_indices_loop_body)

lemma loop_result:
  assumes "getDistinctIndices_loop h32 element sz number maxIterations s = Some r"
  shows "0 < sz \<longrightarrow> distinct (st_indices s) \<longrightarrow> set (st_indices s) \<subseteq> {..<sz} \<longrightarrow>
         length (st_indices s) \<le> number \<longrightarrow>
         (\<forall>indices. r = Inr indices \<longrightarrow>
            length indices = number \<and> distinct indices \<and> set indices \<subseteq> {..<sz})"
proof (rule getDistinctIndices_loop.raw_induct
    [where P = "\<lambda>h32 element sz number maxIterations s r.
         0 < sz \<longrightarrow> distinct (st_indices s) \<longrightarrow> set (st_indices s) \<subseteq> {..<sz} \<longrightarrow>
         length (st_indices s) \<le> number \<longrightarrow>
         (\<forall>indices. r = Inr indices \<longrightarrow>
            length indices = number \<and> distinct indices \<and> set indices \<subseteq> {..<sz})", OF _ assms])
  fix loop :: "('a \<Rightarrow> nat \<Rightarrow> nat) \<Rightarrow> 'a \<Rightarrow> nat \<Rightarrow> nat \<Rightarrow> nat \<Rightarrow> loop_state \<Rightarrow> (error + nat list) option"
  fix h32 element sz number maxIterations s r
  assume IH: "\<And>h32 element sz number maxIterations s r.
      loop h32 element sz number maxIterations s = Some r \<Longrightarrow>
      0 < sz \<longrightarrow> distinct (st_indices s) \<longrightarrow> set (st_indices s) \<subseteq> {..<sz} \<longrightarrow>
         length (st_indices s) \<le> number \<longrightarrow>
         (\<forall>indices. r = Inr indices \<longrightarrow>
            length indices = number \<and> distinct indices \<and> set indices \<subseteq> {..<sz})"
  assume step: "(if length (st_indices s) < number
      then (if maxIterations \<noteq> 0 \<and> st_i (loop_body h32 element sz s) > maxIterations
            then Some (Inl MaxIterationsExceeded)
            else loop h32 element sz number maxIterations (loop_body h32 element sz s))
      else Some (Inr (st_indices s))) = Some r"
  show "0 < sz \<longrightarrow> distinct (st_indices s) \<longrightarrow> set (st_indices s) \<subseteq> {..<sz} \<longrightarrow>
         length (st_indices s) \<le> number \<longrightarrow>
         (\<forall>indices. r = Inr indices \<longrightarrow>
            length indices = number \<and> distinct indices \<and> set indices \<subseteq> {..<sz})"
  proof (cases "length (st_indices s) < number")
    case False
    with step show ?thesis by auto
  next
    case True
    show ?thesis
    proof (cases "maxIterations \<noteq> 0 \<and> st_i (loop_body h32 element sz s) > maxIterations")
      case True
      with \<open>length (st_indices s) < number\<close> step show ?thesis by auto
    next
      case False
      with \<open>length (st_indices s) < number\<close> step
      have "loop h32 element sz number maxIterations (loop_body h32 element sz s) = Some r"
        by (simp split: if_splits)
      note ih = IH[OF this]
      show ?thesis
      proof (intro impI)
        assume a1: "0 < sz" and a2: "distinct (st_indices s)"
          and a3: "set (st_indices s) \<subseteq> {..<sz}"
        have "distinct (st_indices (loop_body h32 element sz s))"
          using a2 by (rule loop_body_distinct)
        moreover have "set (st_indices (loop_body h32 element sz s)) \<subseteq> {..<sz}"
          using a1 a3 by (rule loop_body_range)
        moreover have "length (st_indices (loop_body h32 element sz s)) \<le> number"
          using True by (rule loop_body_length)
        ultimately show "\<forall>indices. r = Inr indices \<longrightarrow>
            length indices = number \<and> distinct indices \<and> set indices \<subseteq> {..<sz}"
          using ih a1 by simp
      qed
    qed
  qed
qed

text \<open>The counter after \<open>j\<close> passes, while it is exact.\<close>

lemma st_i_funpow:
  "st_i s + j \<le> 2 ^ 53 \<Longrightarrow> st_i ((loop_body h32 element sz ^^ j) s) = st_i s + j"
proof (induction j)
  case 0
  show ?case by simp
next
  case (Suc j)
  then have "st_i ((loop_body h32 element sz ^^ j) s) = st_i s + j" by simp
  with Suc.prems show ?case
    by (simp add: st_i_loop_body binary64_exact)
qed

text \<open>
  The loop runs on as long as the indices are too few and the ceiling is not exceeded.
\<close>

lemma loop_unfold:
  assumes "\<forall>p<j. length (st_indices ((loop_body h32 element sz ^^ p) s)) < number
             \<and> \<not> (m \<noteq> 0 \<and> m < st_i ((loop_body h32 element sz ^^ Suc p) s))"
  shows "getDistinctIndices_loop h32 element sz number m s
           = getDistinctIndices_loop h32 element sz number m ((loop_body h32 element sz ^^ j) s)"
  using assms
proof (induction j arbitrary: s)
  case 0
  show ?case by simp
next
  case (Suc j)
  have shift: "(loop_body h32 element sz ^^ Suc p) s
                 = (loop_body h32 element sz ^^ p) (loop_body h32 element sz s)" for p
    by (simp only: funpow_Suc_right o_apply)
  from Suc.prems have first: "length (st_indices s) < number"
      "\<not> (m \<noteq> 0 \<and> m < st_i (loop_body h32 element sz s))"
    by force+
  have rest: "\<forall>p<j. length (st_indices ((loop_body h32 element sz ^^ p) (loop_body h32 element sz s))) < number
             \<and> \<not> (m \<noteq> 0 \<and> m < st_i ((loop_body h32 element sz ^^ Suc p) (loop_body h32 element sz s)))"
  proof (intro allI impI)
    fix p assume "p < j"
    then have "Suc p < Suc j" by simp
    with Suc.prems have "length (st_indices ((loop_body h32 element sz ^^ Suc p) s)) < number
             \<and> \<not> (m \<noteq> 0 \<and> m < st_i ((loop_body h32 element sz ^^ Suc (Suc p)) s))"
      by blast
    then show "length (st_indices ((loop_body h32 element sz ^^ p) (loop_body h32 element sz s))) < number
             \<and> \<not> (m \<noteq> 0 \<and> m < st_i ((loop_body h32 element sz ^^ Suc p) (loop_body h32 element sz s)))"
      by (metis shift)
  qed
  have "getDistinctIndices_loop h32 element sz number m s
          = getDistinctIndices_loop h32 element sz number m (loop_body h32 element sz s)"
    using first by (subst getDistinctIndices_loop.simps) auto
  also have "\<dots> = getDistinctIndices_loop h32 element sz number m
                     ((loop_body h32 element sz ^^ j) (loop_body h32 element sz s))"
    using rest by (rule Suc.IH)
  finally show ?case by (simp only: funpow_Suc_right o_apply)
qed

lemma loop_returns:
  assumes "\<forall>p<j. length (st_indices ((loop_body h32 element sz ^^ p) s)) < number
             \<and> \<not> (m \<noteq> 0 \<and> m < st_i ((loop_body h32 element sz ^^ Suc p) s))"
    and "number \<le> length (st_indices ((loop_body h32 element sz ^^ j) s))"
  shows "getDistinctIndices_loop h32 element sz number m s
           = Some (Inr (st_indices ((loop_body h32 element sz ^^ j) s)))"
  unfolding loop_unfold[OF assms(1)]
  using assms(2) by (subst getDistinctIndices_loop.simps) simp

lemma loop_throws:
  assumes "\<forall>p<j. length (st_indices ((loop_body h32 element sz ^^ p) s)) < number
             \<and> \<not> (m \<noteq> 0 \<and> m < st_i ((loop_body h32 element sz ^^ Suc p) s))"
    and "length (st_indices ((loop_body h32 element sz ^^ j) s)) < number"
    and "m \<noteq> 0" and "m < st_i ((loop_body h32 element sz ^^ Suc j) s)"
  shows "getDistinctIndices_loop h32 element sz number m s = Some (Inl MaxIterationsExceeded)"
  unfolding loop_unfold[OF assms(1)]
  using assms(2,3,4) by (subst getDistinctIndices_loop.simps) simp

text \<open>
  A ceiling between 1 and \<open>2 ^ 53 - 1\<close>, from a state whose counter is 1: the loop returns
  after the first number \<open>k\<close> of passes that gives enough indices, if that is below the
  ceiling, and throws in the pass whose number is the ceiling otherwise.
\<close>

lemma loop_bounded:
  assumes "0 < m" and "m < 2 ^ 53" and "st_i s = 1"
  shows "\<exists>k\<le>m. (\<forall>j<k. length (st_indices ((loop_body h32 element sz ^^ j) s)) < number) \<and>
      (k < m \<and> number \<le> length (st_indices ((loop_body h32 element sz ^^ k) s)) \<and>
         getDistinctIndices_loop h32 element sz number m s
           = Some (Inr (st_indices ((loop_body h32 element sz ^^ k) s)))
       \<or> k = m \<and> getDistinctIndices_loop h32 element sz number m s
                   = Some (Inl MaxIterationsExceeded))"
proof -
  let ?S = "\<lambda>j. (loop_body h32 element sz ^^ j) s"
  have i: "st_i (?S j) = j + 1" if "j \<le> m" for j
    using st_i_funpow[of s j h32 element sz] that assms(2,3) by simp
  show ?thesis
  proof (cases "\<exists>j<m. number \<le> length (st_indices (?S j))")
    case True
    define k where "k = (LEAST j. j < m \<and> number \<le> length (st_indices (?S j)))"
    from True have k: "k < m \<and> number \<le> length (st_indices (?S k))"
      unfolding k_def by (rule LeastI_ex)
    have least: "length (st_indices (?S j)) < number" if "j < k" for j
    proof (rule ccontr)
      assume "\<not> length (st_indices (?S j)) < number"
      with that k have "j < m \<and> number \<le> length (st_indices (?S j))" by simp
      then have "k \<le> j" unfolding k_def by (rule Least_le)
      with that show False by simp
    qed
    have run: "\<forall>p<k. length (st_indices (?S p)) < number \<and> \<not> (m \<noteq> 0 \<and> m < st_i (?S (Suc p)))"
    proof (intro allI impI)
      fix p assume p: "p < k"
      with k have "Suc p \<le> m" by simp
      from i[OF this] p k least[OF p]
      show "length (st_indices (?S p)) < number \<and> \<not> (m \<noteq> 0 \<and> m < st_i (?S (Suc p)))"
        by simp
    qed
    from loop_returns[OF run] k least show ?thesis
      by (intro exI[of _ k]) simp
  next
    case False
    then have few: "length (st_indices (?S j)) < number" if "j < m" for j
      using that by (simp add: not_le)
    from assms(1) obtain j where m: "m = Suc j" by (cases m) simp_all
    have run: "\<forall>p<j. length (st_indices (?S p)) < number \<and> \<not> (m \<noteq> 0 \<and> m < st_i (?S (Suc p)))"
    proof (intro allI impI)
      fix p assume p: "p < j"
      then have "Suc p \<le> m" "p < m" by (simp_all add: m)
      from i[OF this(1)] few[OF this(2)] p
      show "length (st_indices (?S p)) < number \<and> \<not> (m \<noteq> 0 \<and> m < st_i (?S (Suc p)))"
        by (simp add: m)
    qed
    have "m < st_i (?S (Suc j))" using i[of "Suc j"] by (simp add: m)
    from loop_throws[OF run few[of j] _ this] assms(1) few show ?thesis
      by (intro exI[of _ m]) (simp add: m)
  qed
qed



subsection \<open>The candidates without a reseed\<close>







subsection \<open>The indices are the candidates, each once\<close>


lemma st_i_init_state: "st_i (init_state h32 element seed) = 1"
  by (simp add: init_state_def)

lemma st_indices_init_state: "st_indices (init_state h32 element seed) = []"
  by (simp add: init_state_def)

lemmas eval_indices = getDistinctIndices_def init_state_def hashTwice_def sample_h32_def
  getDistinctIndices_loop.simps loop_body_def Let_def binary64_exact

lemma eval_alice:
  "getDistinctIndices sample_h32 ''alice'' 10 4 (Some 0x1234567890) None = Some (Inr [7, 9, 2, 5])"
  by (simp add: eval_indices)








subsection \<open>Claims about \<^verbatim>\<open>getDistinctIndices\<close>\<close>

text \<open>
  C5. Whenever \<^verbatim>\<open>getDistinctIndices(element, size, hashCount, seed)\<close> returns normally, for a
  size of at least 1 and a requested count of at most the size, the array it returns has
  exactly \<open>hashCount\<close> entries, they are pairwise distinct and each lies in \<open>[0, size)\<close>.
\<close>

theorem getDistinctIndices_contract:
  assumes "1 \<le> sz" and "number \<le> sz"
    and "getDistinctIndices h32 element sz number seed_arg maxIterations_arg = Some (Inr indices)"
  shows "length indices = number \<and> distinct indices \<and> set indices \<subseteq> {..<sz}"
proof -
  from assms(3) obtain m seed where
    "getDistinctIndices_loop h32 element sz number m (init_state h32 element seed) = Some (Inr indices)"
    by (simp add: getDistinctIndices_def)
  from loop_result[OF this] assms(1) show ?thesis
    by (simp add: st_indices_init_state)
qed

theorem getDistinctIndices_contract_witness:
  "(1::nat) \<le> 10 \<and> (4::nat) \<le> 10 \<and>
   getDistinctIndices sample_h32 ''alice'' 10 4 (Some 0x1234567890) None = Some (Inr [7, 9, 2, 5]) \<and>
   length [7, 9, 2, 5 :: nat] = 4 \<and> distinct [7, 9, 2, 5 :: nat] \<and> set [7, 9, 2, 5 :: nat] \<subseteq> {..<10}"
  using getDistinctIndices_contract[OF _ _ eval_alice] eval_alice by simp







section \<open>The bit buffer\<close>

lemma getUint8ArrayLength_sum: "8 dvd bitCount + (8 - bitCount mod 8)" for bitCount :: nat
  by presburger

lemma getUint8ArrayLength_small:
  "bitCount < 2 ^ 56 - 8 \<Longrightarrow> getUint8ArrayLength bitCount = bitCount div 8 + 1"
proof -
  assume a: "bitCount < 2 ^ 56 - 8"
  have 8: "bitCount + (8 - bitCount mod 8) = 8 * (bitCount div 8 + 1)"
    by presburger
  from a have "bitCount + (8 - bitCount mod 8) < 2 ^ 56" by simp
  with getUint8ArrayLength_sum have "binary64 (bitCount + (8 - bitCount mod 8)) = bitCount + (8 - bitCount mod 8)"
    by (rule binary64_multiple_of_8)
  then show ?thesis
    unfolding getUint8ArrayLength_def Let_def by (simp add: 8)
qed

text \<open>A buffer length that the language allows is the length for a size below \<open>2 ^ 56\<close>.\<close>

lemma getUint8ArrayLength_allowed:
  assumes "getUint8ArrayLength bitCount \<le> 2 ^ 53 - 1"
  shows "getUint8ArrayLength bitCount = bitCount div 8 + 1" and "bitCount < 2 ^ 56"
proof -
  let ?x = "bitCount + (8 - bitCount mod 8)"
  have x: "?x < 2 ^ 56"
  proof (rule ccontr)
    assume "\<not> ?x < 2 ^ 56"
    then have "2 ^ 56 \<le> binary64 ?x" by (intro binary64_ge_56) simp
    then have "2 ^ 53 \<le> binary64 ?x div 8" by simp
    with assms show False by (simp add: getUint8ArrayLength_def Let_def)
  qed
  then show "bitCount < 2 ^ 56" by simp
  have 8: "?x = 8 * (bitCount div 8 + 1)" by presburger
  from getUint8ArrayLength_sum x have "binary64 ?x = ?x" by (rule binary64_multiple_of_8)
  then show "getUint8ArrayLength bitCount = bitCount div 8 + 1"
    unfolding getUint8ArrayLength_def Let_def by (simp add: 8)
qed

lemma getUint8ArrayLength_2_63: "\<not> getUint8ArrayLength 9223372036854775808 \<le> 2 ^ 53 - 1"
  using getUint8ArrayLength_allowed(2)[of 9223372036854775808] by auto

lemma getBit_word:
  "k < 8 \<Longrightarrow> signed_drop_bit (k mod 32) (ucast (b :: 8 word) AND setBitInByte k 0)
      = (if bit b k then 1 else 0)"
  by (rule bit_eqI) (auto simp add: setBitInByte_def bit_simps intro!: gr0I)

lemma setBit_word:
  "k < 8 \<Longrightarrow> (ucast (setBitInByte k (ucast (b :: 8 word))) :: 8 word) = b OR push_bit k 1"
  by (rule bit_eqI) (auto simp add: setBitInByte_def bit_simps)

lemma getBitAtIndex_eq:
  "getBitAtIndex array index =
     (if index div 8 < length array \<and> bit (array ! (index div 8)) (index mod 8) then 1 else 0)"
proof -
  have k: "index mod 8 < 8" by simp
  show ?thesis
    unfolding getBitAtIndex_def getByteIndexInArray_def getBitIndex_def Let_def uint8_get_def
    using getBit_word[OF k] by simp
qed

lemma length_uint8_put: "length (uint8_put array k v) = length array"
  by (simp add: uint8_put_def)

lemma add_step_eq:
  "uint8_put array (getByteIndexInArray index)
      (setBitInByte (getBitIndex index) (toInt32 (uint8_get array (getByteIndexInArray index))))
   = (if index div 8 < length array
      then array[index div 8 := array ! (index div 8) OR push_bit (index mod 8) 1]
      else array)"
proof -
  have k: "index mod 8 < 8" by simp
  show ?thesis
    unfolding getByteIndexInArray_def getBitIndex_def uint8_get_def uint8_put_def
    by (simp add: setBit_word[OF k])
qed

lemma getBitAtIndex_add_step:
  "getBitAtIndex
     (uint8_put array (getByteIndexInArray index)
        (setBitInByte (getBitIndex index) (toInt32 (uint8_get array (getByteIndexInArray index))))) j
   = (if j = index \<and> index div 8 < length array then 1 else getBitAtIndex array j)"
proof -
  have k: "index mod 8 < 8" "j mod 8 < 8" by simp_all
  have eq: "j div 8 = index div 8 \<Longrightarrow> j mod 8 = index mod 8 \<Longrightarrow> j = index"
    by (metis div_mult_mod_eq)
  show ?thesis
    unfolding add_step_eq getBitAtIndex_eq
    using eq by (auto simp add: bit_simps nth_list_update)
qed

lemma length_add_loop: "length (add_loop array indexes) = length array"
  by (induction indexes arbitrary: array) (simp_all add: Let_def length_uint8_put)

lemma getBitAtIndex_add_loop:
  "getBitAtIndex (add_loop array indexes) j
     = (if j \<in> set indexes \<and> j div 8 < length array then 1 else getBitAtIndex array j)"
proof (induction indexes arbitrary: array)
  case Nil
  show ?case by simp
next
  case (Cons index indexes)
  have oob: "\<not> j div 8 < length array \<Longrightarrow> getBitAtIndex array j = 0"
    by (simp add: getBitAtIndex_eq)
  show ?case
    using oob
    by (auto simp add: Let_def Cons.IH getBitAtIndex_add_step length_uint8_put)
qed

lemma has_loop_iff: "has_loop array indexes \<longleftrightarrow> (\<forall>index \<in> set indexes. getBitAtIndex array index \<noteq> 0)"
  by (induction indexes) simp_all

section \<open>The filter\<close>

subsection \<open>\<^verbatim>\<open>add\<close> and \<^verbatim>\<open>has\<close>\<close>

lemma getDistinctIndices_Inr:
  assumes "0 < sz"
    and "getDistinctIndices h32 element sz number seed_arg maxIterations_arg = Some (Inr indices)"
  shows "length indices = number \<and> distinct indices \<and> set indices \<subseteq> {..<sz}"
proof -
  from assms(2) obtain m seed where
    "getDistinctIndices_loop h32 element sz number m (init_state h32 element seed) = Some (Inr indices)"
    by (simp add: getDistinctIndices_def)
  from loop_result[OF this] assms(1) show ?thesis
    by (simp add: st_indices_init_state)
qed

lemma getDistinctIndices_default:
  assumes "0 < sz" and "sz * 100 < 2 ^ 53"
  shows "getDistinctIndices h32 element sz number seed_arg None = Some (Inl MaxIterationsExceeded)
       \<or> (\<exists>indices. getDistinctIndices h32 element sz number seed_arg None = Some (Inr indices))"
proof -
  let ?s = "init_state h32 element (case seed_arg of None \<Rightarrow> 0 | Some x \<Rightarrow> x)"
  from assms(1) have m: "0 < sz * 100" by simp
  from assms(2) have "sz * 100 \<le> 2 ^ 53" by simp
  then have b: "binary64 (sz * 100) = sz * 100" by (rule binary64_exact)
  have g: "getDistinctIndices h32 element sz number seed_arg None
             = getDistinctIndices_loop h32 element sz number (sz * 100) ?s"
    by (simp add: getDistinctIndices_def b)
  let ?S = "\<lambda>j. (loop_body h32 element sz ^^ j) ?s"
  have "\<exists>k\<le>(sz * 100). (\<forall>j<k. length (st_indices (?S j)) < number) \<and>
      (k < sz * 100 \<and> number \<le> length (st_indices (?S k)) \<and>
         getDistinctIndices_loop h32 element sz number (sz * 100) ?s = Some (Inr (st_indices (?S k)))
       \<or> k = sz * 100 \<and> getDistinctIndices_loop h32 element sz number (sz * 100) ?s
                   = Some (Inl MaxIterationsExceeded))"
    by (rule loop_bounded[OF m assms(2) st_i_init_state])
  then have "getDistinctIndices_loop h32 element sz number (sz * 100) ?s = Some (Inl MaxIterationsExceeded)
      \<or> (\<exists>indices. getDistinctIndices_loop h32 element sz number (sz * 100) ?s = Some (Inr indices))"
    by blast
  then show ?thesis unfolding g .
qed

lemma add_cases:
  assumes "0 < bf_size f" and "bf_size f * 100 < 2 ^ 53"
  shows "(\<exists>indexes. getDistinctIndices h32 element (bf_size f) (bf_nbHashes f) (Some (bf_seed f)) None
                      = Some (Inr indexes)
            \<and> BloomFilter_add h32 f element
                = Some (Inr (), f\<lparr>bf_filter := add_loop (bf_filter f) indexes,
                                   bf_length := binary64 (bf_length f + 1)\<rparr>))
       \<or> (getDistinctIndices h32 element (bf_size f) (bf_nbHashes f) (Some (bf_seed f)) None
              = Some (Inl MaxIterationsExceeded)
            \<and> BloomFilter_add h32 f element = Some (Inl MaxIterationsExceeded, f))"
  using getDistinctIndices_default[OF assms, of h32 element "bf_nbHashes f" "Some (bf_seed f)"]
  by (auto simp add: BloomFilter_add_def)

lemma add_Inr:
  assumes "BloomFilter_add h32 f element = Some (Inr u, f')"
  shows "\<exists>indexes. getDistinctIndices h32 element (bf_size f) (bf_nbHashes f) (Some (bf_seed f)) None
                      = Some (Inr indexes)
            \<and> f' = f\<lparr>bf_filter := add_loop (bf_filter f) indexes, bf_length := binary64 (bf_length f + 1)\<rparr>"
  using assms by (auto simp add: BloomFilter_add_def split: option.splits sum.splits)

lemma add_all_fields:
  "add_all h32 f elements = Some f' \<Longrightarrow>
     bf_size f' = bf_size f \<and> bf_nbHashes f' = bf_nbHashes f \<and> bf_seed f' = bf_seed f
     \<and> length (bf_filter f') = length (bf_filter f)
     \<and> (bf_length f \<le> 2 ^ 53 \<longrightarrow> bf_length f' \<le> 2 ^ 53)"
proof (induction elements arbitrary: f)
  case Nil
  then show ?case by simp
next
  case (Cons element elements)
  from Cons.prems obtain u f1 where a: "BloomFilter_add h32 f element = Some (Inr u, f1)"
    and r: "add_all h32 f1 elements = Some f'"
    by (auto split: option.splits sum.splits prod.splits)
  from add_Inr[OF a] obtain indexes where
    f1: "f1 = f\<lparr>bf_filter := add_loop (bf_filter f) indexes, bf_length := binary64 (bf_length f + 1)\<rparr>"
    by blast
  from Cons.IH[OF r] increment_le[of "bf_length f"] show ?case
    by (simp add: f1 length_add_loop)
qed

lemma add_all_bits:
  "add_all h32 f elements = Some f' \<Longrightarrow> getBitAtIndex (bf_filter f) j \<noteq> 0 \<Longrightarrow>
     getBitAtIndex (bf_filter f') j \<noteq> 0"
proof (induction elements arbitrary: f)
  case Nil
  then show ?case by simp
next
  case (Cons element elements)
  from Cons.prems(1) obtain u f1 where a: "BloomFilter_add h32 f element = Some (Inr u, f1)"
    and r: "add_all h32 f1 elements = Some f'"
    by (auto split: option.splits sum.splits prod.splits)
  from add_Inr[OF a] obtain indexes where
    f1: "f1 = f\<lparr>bf_filter := add_loop (bf_filter f) indexes, bf_length := binary64 (bf_length f + 1)\<rparr>"
    by blast
  from Cons.prems(2) have "getBitAtIndex (bf_filter f1) j \<noteq> 0"
    by (simp add: f1 getBitAtIndex_add_loop)
  from Cons.IH[OF r this] show ?case .
qed

lemma new_Inr:
  assumes "BloomFilter_new can_allocate sz nbHashes = Inr f"
  shows "getUint8ArrayLength sz \<le> 2 ^ 53 - 1" and "can_allocate (getUint8ArrayLength sz)"
    and "f = \<lparr>bf_size = sz, bf_nbHashes = nbHashes, bf_filter = replicate (getUint8ArrayLength sz) 0,
               bf_length = 0, bf_seed = 0x1234567890\<rparr>"
  using assms by (auto simp add: BloomFilter_new_def new_Uint8Array_def split: if_splits)

text \<open>
  The bit buffer of a filter that the constructor made holds \<open>size\<close> bits, and \<^verbatim>\<open>add\<close> keeps
  its length.
\<close>

lemma constructed_filter_covers:
  assumes "BloomFilter_new can_allocate sz nbHashes = Inr f0" and "add_all h32 f0 elements = Some f"
  shows "bf_size f \<le> 8 * length (bf_filter f)"
proof -
  note n = new_Inr[OF assms(1)]
  from n(3) have "bf_size f0 = sz" "length (bf_filter f0) = sz div 8 + 1"
    by (simp_all add: getUint8ArrayLength_allowed(1)[OF n(1)])
  with add_all_fields[OF assms(2)] show ?thesis by simp
qed

lemma getBitAtIndex_zeros: "getBitAtIndex (replicate n 0) j = 0"
  by (simp add: getBitAtIndex_eq)

lemma eval_bob: "getDistinctIndices sample_h32 ''bob'' 10 4 (Some 0x1234567890) None = Some (Inr [5,1,8,7])"
  by (simp add: eval_indices)

lemma eval_size_1: "getDistinctIndices h32 element (Suc 0) (Suc 0) (Some seed) None = Some (Inr [0])"
  by (simp add: getDistinctIndices_def init_state_def getDistinctIndices_loop.simps loop_body_def Let_def
        binary64_exact)

lemmas eval_bits = BloomFilter_add_def BloomFilter_has_def add_step_eq getBitAtIndex_eq Let_def
  binary64_exact

lemmas eval_import = BloomFilter_import_def slice_def uint8ArrayToInt64_def BloomFilter_new_def
  new_Uint8Array_def getUint8ArrayLength_small enough_memory_def binary64_exact

lemma replicate_2: "replicate 2 x = [x, x]"
  by (simp add: numeral_2_eq_2)

lemma eval_new_10_4:
  "BloomFilter_new enough_memory 10 4 = Inr \<lparr>bf_size = 10, bf_nbHashes = 4, bf_filter = [0, 0], bf_length = 0, bf_seed = 0x1234567890\<rparr>"
  by (simp add: BloomFilter_new_def new_Uint8Array_def getUint8ArrayLength_small enough_memory_def
        replicate_2)

lemma eval_add_alice:
  "BloomFilter_add sample_h32
     \<lparr>bf_size = 10, bf_nbHashes = 4, bf_filter = [0, 0], bf_length = 0, bf_seed = 0x1234567890\<rparr> ''alice''
   = Some (Inr (), \<lparr>bf_size = 10, bf_nbHashes = 4, bf_filter = [164, 2], bf_length = 1, bf_seed = 0x1234567890\<rparr>)"
  by (simp add: eval_bits eval_alice)

lemma eval_add_bob:
  "BloomFilter_add sample_h32
     \<lparr>bf_size = 10, bf_nbHashes = 4, bf_filter = [164, 2], bf_length = 1, bf_seed = 0x1234567890\<rparr> ''bob''
   = Some (Inr (), \<lparr>bf_size = 10, bf_nbHashes = 4, bf_filter = [166, 3], bf_length = 2, bf_seed = 0x1234567890\<rparr>)"
  by (simp add: eval_bits eval_bob)

subsection \<open>Claims about \<^verbatim>\<open>add\<close> and \<^verbatim>\<open>has\<close>\<close>

text \<open>
  C1, as amended. For every element and every filter with a size of at least 1, a hash
  count between 1 and the size, and a bit buffer that holds at least \<open>size\<close> bits (which
  every filter made by the constructor has, and keeps under \<^verbatim>\<open>add\<close>): after a call
  \<^verbatim>\<open>add(e)\<close> that returns normally and any further calls of \<^verbatim>\<open>add\<close> that return normally,
  \<^verbatim>\<open>has(e)\<close> returns \<^verbatim>\<open>true\<close>. The filter \<open>f\<close> is arbitrary, so the calls of \<^verbatim>\<open>add\<close> before
  \<^verbatim>\<open>add(e)\<close> are covered.
\<close>

theorem no_false_negatives:
  assumes "1 \<le> bf_size f" and "1 \<le> bf_nbHashes f" and "bf_nbHashes f \<le> bf_size f"
    and "bf_size f \<le> 8 * length (bf_filter f)"
    and "BloomFilter_add h32 f element = Some (Inr (), f1)"
    and "add_all h32 f1 elements = Some f2"
  shows "BloomFilter_has h32 f2 element = Some (Inr True)"
proof -
  from add_Inr[OF assms(5)] obtain indexes where
    g: "getDistinctIndices h32 element (bf_size f) (bf_nbHashes f) (Some (bf_seed f)) None
          = Some (Inr indexes)"
    and f1: "f1 = f\<lparr>bf_filter := add_loop (bf_filter f) indexes, bf_length := binary64 (bf_length f + 1)\<rparr>"
    by blast
  from assms(1) have "0 < bf_size f" by simp
  from getDistinctIndices_Inr[OF this g] have rng: "set indexes \<subseteq> {..<bf_size f}" by simp
  have set1: "getBitAtIndex (bf_filter f1) index \<noteq> 0" if "index \<in> set indexes" for index
  proof -
    from that rng assms(4) have "index div 8 < length (bf_filter f)" by auto
    with that show ?thesis by (simp add: f1 getBitAtIndex_add_loop)
  qed
  have set2: "getBitAtIndex (bf_filter f2) index \<noteq> 0" if "index \<in> set indexes" for index
    using add_all_bits[OF assms(6) set1[OF that]] .
  from add_all_fields[OF assms(6)] have
    "bf_size f2 = bf_size f" "bf_nbHashes f2 = bf_nbHashes f" "bf_seed f2 = bf_seed f"
    by (simp_all add: f1)
  with g set2 show ?thesis
    by (simp add: BloomFilter_has_def has_loop_iff)
qed

theorem no_false_negatives_witness:
  "BloomFilter_new enough_memory 10 4 = Inr \<lparr>bf_size = 10, bf_nbHashes = 4, bf_filter = [0, 0], bf_length = 0, bf_seed = 0x1234567890\<rparr>
   \<and> BloomFilter_add sample_h32
     \<lparr>bf_size = 10, bf_nbHashes = 4, bf_filter = [0, 0], bf_length = 0, bf_seed = 0x1234567890\<rparr> ''alice''
   = Some (Inr (), \<lparr>bf_size = 10, bf_nbHashes = 4, bf_filter = [164, 2], bf_length = 1, bf_seed = 0x1234567890\<rparr>)
   \<and> add_all sample_h32 \<lparr>bf_size = 10, bf_nbHashes = 4, bf_filter = [164, 2], bf_length = 1, bf_seed = 0x1234567890\<rparr> [''bob'']
   = Some \<lparr>bf_size = 10, bf_nbHashes = 4, bf_filter = [166, 3], bf_length = 2, bf_seed = 0x1234567890\<rparr>
   \<and> BloomFilter_has sample_h32 \<lparr>bf_size = 10, bf_nbHashes = 4, bf_filter = [166, 3], bf_length = 2, bf_seed = 0x1234567890\<rparr> ''alice''
   = Some (Inr True)"
proof -
  have a: "add_all sample_h32 \<lparr>bf_size = 10, bf_nbHashes = 4, bf_filter = [164, 2], bf_length = 1, bf_seed = 0x1234567890\<rparr> [''bob'']
   = Some \<lparr>bf_size = 10, bf_nbHashes = 4, bf_filter = [166, 3], bf_length = 2, bf_seed = 0x1234567890\<rparr>"
    using eval_add_bob by simp
  from no_false_negatives[OF _ _ _ _ eval_add_alice a] have
    "BloomFilter_has sample_h32 \<lparr>bf_size = 10, bf_nbHashes = 4, bf_filter = [166, 3], bf_length = 2, bf_seed = 0x1234567890\<rparr> ''alice''
   = Some (Inr True)"
    by simp
  with eval_new_10_4 eval_add_alice a show ?thesis by (simp only: simp_thms)
qed

text \<open>
  C1 as stated is about every filter. \<^verbatim>\<open>BloomFilter.import\<close> checks nothing: from the 32
  bytes of a header alone it makes a filter of size 1 whose bit buffer is empty. On that
  filter \<^verbatim>\<open>add\<close> writes out of range, which stores nothing and raises nothing, and returns
  normally; \<^verbatim>\<open>has\<close> then reads \<^verbatim>\<open>undefined\<close> and returns \<^verbatim>\<open>false\<close>. The index is 0 for every
  hash, since the size is 1.
\<close>

theorem truncated_filter_false_negative_counterexample:
  "BloomFilter_import enough_memory [0,0,0,0,0,0,0,0, 0,0,0,0,0,0,0,1, 0,0,0,0,0,0,0,0, 0,0,0,0,0,0,0,1]
     = Inr \<lparr>bf_size = 1, bf_nbHashes = 1, bf_filter = [], bf_length = 0, bf_seed = 0\<rparr>
   \<and> BloomFilter_add sample_h32 \<lparr>bf_size = 1, bf_nbHashes = 1, bf_filter = [], bf_length = 0, bf_seed = 0\<rparr> ''a''
     = Some (Inr (), \<lparr>bf_size = 1, bf_nbHashes = 1, bf_filter = [], bf_length = 1, bf_seed = 0\<rparr>)
   \<and> BloomFilter_has sample_h32 \<lparr>bf_size = 1, bf_nbHashes = 1, bf_filter = [], bf_length = 1, bf_seed = 0\<rparr> ''a''
     = Some (Inr False)"
  by (simp add: eval_import eval_bits eval_size_1)

text \<open>
  C7, as amended. For every filter with a size of at least 1 and below \<open>2 ^ 53 / 100\<close>
  (the default ceiling \<^verbatim>\<open>size * 100\<close> is then below \<open>2 ^ 53\<close>), whose bit buffer holds at
  least \<open>size\<close> bits and whose \<open>elementCount\<close> is below \<open>2 ^ 53\<close>, and every element,
  \<^verbatim>\<open>add(element)\<close> does one of two things. Either it returns normally: then every bit at a
  generated index is 1 afterwards, every other bit is as before, \<open>elementCount\<close> is one
  more, and size, hash count, seed and buffer length are unchanged. Or index generation
  throws the error of the ceiling: then \<^verbatim>\<open>add\<close> throws it and the filter is as before.
\<close>

theorem add_atomic:
  assumes "1 \<le> bf_size f" and "bf_size f * 100 < 2 ^ 53"
    and "bf_size f \<le> 8 * length (bf_filter f)" and "bf_length f < 2 ^ 53"
  shows "(\<exists>indexes f'.
            getDistinctIndices h32 element (bf_size f) (bf_nbHashes f) (Some (bf_seed f)) None
              = Some (Inr indexes)
          \<and> BloomFilter_add h32 f element = Some (Inr (), f')
          \<and> bf_length f' = bf_length f + 1
          \<and> bf_size f' = bf_size f \<and> bf_nbHashes f' = bf_nbHashes f \<and> bf_seed f' = bf_seed f
          \<and> length (bf_filter f') = length (bf_filter f)
          \<and> (\<forall>j. getBitAtIndex (bf_filter f') j
                   = (if j \<in> set indexes then 1 else getBitAtIndex (bf_filter f) j)))
       \<or> (getDistinctIndices h32 element (bf_size f) (bf_nbHashes f) (Some (bf_seed f)) None
              = Some (Inl MaxIterationsExceeded)
          \<and> BloomFilter_add h32 f element = Some (Inl MaxIterationsExceeded, f))"
proof -
  from assms(1) have pos: "0 < bf_size f" by simp
  from assms(4) have "bf_length f + 1 \<le> 2 ^ 53" by simp
  then have count: "binary64 (bf_length f + 1) = bf_length f + 1" by (rule binary64_exact)
  from add_cases[OF pos assms(2), of h32 element] show ?thesis
  proof
    assume "\<exists>indexes. getDistinctIndices h32 element (bf_size f) (bf_nbHashes f) (Some (bf_seed f)) None
                      = Some (Inr indexes)
            \<and> BloomFilter_add h32 f element
                = Some (Inr (), f\<lparr>bf_filter := add_loop (bf_filter f) indexes,
                                   bf_length := binary64 (bf_length f + 1)\<rparr>)"
    then obtain indexes where
      g: "getDistinctIndices h32 element (bf_size f) (bf_nbHashes f) (Some (bf_seed f)) None
            = Some (Inr indexes)"
      and a: "BloomFilter_add h32 f element
                = Some (Inr (), f\<lparr>bf_filter := add_loop (bf_filter f) indexes,
                                   bf_length := binary64 (bf_length f + 1)\<rparr>)"
      by blast
    from getDistinctIndices_Inr[OF pos g] have rng: "set indexes \<subseteq> {..<bf_size f}" by simp
    have "getBitAtIndex (add_loop (bf_filter f) indexes) j
            = (if j \<in> set indexes then 1 else getBitAtIndex (bf_filter f) j)" for j
    proof (cases "j \<in> set indexes")
      case True
      with rng assms(3) have "j div 8 < length (bf_filter f)" by auto
      with True show ?thesis by (simp add: getBitAtIndex_add_loop)
    next
      case False
      then show ?thesis by (simp add: getBitAtIndex_add_loop)
    qed
    with g a count show ?thesis
      by (intro disjI1 exI[of _ indexes]
            exI[of _ "f\<lparr>bf_filter := add_loop (bf_filter f) indexes,
                         bf_length := binary64 (bf_length f + 1)\<rparr>"])
         (simp add: length_add_loop)
  next
    assume "getDistinctIndices h32 element (bf_size f) (bf_nbHashes f) (Some (bf_seed f)) None
              = Some (Inl MaxIterationsExceeded)
            \<and> BloomFilter_add h32 f element = Some (Inl MaxIterationsExceeded, f)"
    then show ?thesis by (intro disjI2)
  qed
qed

theorem add_atomic_witness:
  "(1::nat) \<le> 10 \<and> (10::nat) * 100 < 2 ^ 53 \<and> (10::nat) \<le> 8 * length [0, 0 :: 8 word]
   \<and> (0::nat) < 2 ^ 53
   \<and> BloomFilter_add sample_h32
     \<lparr>bf_size = 10, bf_nbHashes = 4, bf_filter = [0, 0], bf_length = 0, bf_seed = 0x1234567890\<rparr> ''alice''
   = Some (Inr (), \<lparr>bf_size = 10, bf_nbHashes = 4, bf_filter = [164, 2], bf_length = 1, bf_seed = 0x1234567890\<rparr>)
   \<and> getBitAtIndex [164, 2] 9 = 1"
  using add_atomic[of "\<lparr>bf_size = 10, bf_nbHashes = 4, bf_filter = [0, 0], bf_length = 0, bf_seed = 0x1234567890\<rparr>"
      sample_h32 "''alice''"]
  by (simp add: eval_add_alice eval_alice)

text \<open>
  C7 as stated is about every filter. \<^verbatim>\<open>BloomFilter.import\<close> checks nothing. On the filter
  of size 1 with an empty bit buffer that it makes from a bare header, \<^verbatim>\<open>add\<close> returns
  normally and counts the element, and the bit at the generated index 0 is not set. On
  the filter that it makes from a header with the element count \<open>2 ^ 53\<close>, \<^verbatim>\<open>add\<close> returns
  normally and sets the bit, and the element count is as before: \<^verbatim>\<open>this._length++\<close> adds 1
  to a double, and \<open>2 ^ 53 + 1\<close> is rounded to \<open>2 ^ 53\<close>.
\<close>

theorem truncated_filter_add_counterexample:
  "BloomFilter_import enough_memory
       [0,0,0,0,0,0,0,0, 0,0,0,0,0,0,0,1, 0,0,0,0,0,0,0,0, 0,0,0,0,0,0,0,1]
     = Inr \<lparr>bf_size = 1, bf_nbHashes = 1, bf_filter = [], bf_length = 0, bf_seed = 0\<rparr>
   \<and> getDistinctIndices sample_h32 ''a'' 1 1 (Some 0) None = Some (Inr [0])
   \<and> BloomFilter_add sample_h32 \<lparr>bf_size = 1, bf_nbHashes = 1, bf_filter = [], bf_length = 0, bf_seed = 0\<rparr> ''a''
     = Some (Inr (), \<lparr>bf_size = 1, bf_nbHashes = 1, bf_filter = [], bf_length = 1, bf_seed = 0\<rparr>)
   \<and> getBitAtIndex [] 0 = 0
   \<and> BloomFilter_import enough_memory
       [0,0,0,0,0,0,0,0, 0,0,0,0,0,0,0,1, 0,0x20,0,0,0,0,0,0, 0,0,0,0,0,0,0,1, 0]
     = Inr \<lparr>bf_size = 1, bf_nbHashes = 1, bf_filter = [0], bf_length = 2 ^ 53, bf_seed = 0\<rparr>
   \<and> BloomFilter_add sample_h32
       \<lparr>bf_size = 1, bf_nbHashes = 1, bf_filter = [0], bf_length = 2 ^ 53, bf_seed = 0\<rparr> ''a''
     = Some (Inr (), \<lparr>bf_size = 1, bf_nbHashes = 1, bf_filter = [1], bf_length = 2 ^ 53, bf_seed = 0\<rparr>)"
  by (simp add: eval_import eval_bits eval_size_1 binary64_stuck_numeral)

text \<open>
  C10. For a size of at least 1, a hash count between 1 and the size and every element:
  on the filter the constructor returns, \<^verbatim>\<open>has(e)\<close> is \<^verbatim>\<open>false\<close> whenever it returns normally.
\<close>

theorem empty_filter_rejects:
  assumes "1 \<le> sz" and "1 \<le> nbHashes" and "nbHashes \<le> sz"
    and "BloomFilter_new can_allocate sz nbHashes = Inr f"
    and "BloomFilter_has h32 f element = Some (Inr b)"
  shows "b = False"
proof -
  from assms(4) have f: "bf_size f = sz" "bf_nbHashes f = nbHashes"
      "bf_filter f = replicate (getUint8ArrayLength sz) 0"
    by (auto simp add: BloomFilter_new_def new_Uint8Array_def split: if_splits)
  from assms(5) obtain indexes where
    g: "getDistinctIndices h32 element sz nbHashes (Some (bf_seed f)) None = Some (Inr indexes)"
    and b: "b = has_loop (bf_filter f) indexes"
    by (auto simp add: BloomFilter_has_def f split: option.splits sum.splits)
  from assms(1) have "0 < sz" by simp
  from getDistinctIndices_Inr[OF this g] assms(2) have "indexes \<noteq> []" by auto
  then obtain index rest where "indexes = index # rest" by (cases indexes) auto
  then show ?thesis by (simp add: b f getBitAtIndex_zeros)
qed

theorem empty_filter_rejects_witness:
  "(1::nat) \<le> 10 \<and> (1::nat) \<le> 4 \<and> (4::nat) \<le> 10
   \<and> BloomFilter_new enough_memory 10 4 = Inr \<lparr>bf_size = 10, bf_nbHashes = 4, bf_filter = [0, 0], bf_length = 0, bf_seed = 0x1234567890\<rparr>
   \<and> BloomFilter_has sample_h32 \<lparr>bf_size = 10, bf_nbHashes = 4, bf_filter = [0, 0], bf_length = 0, bf_seed = 0x1234567890\<rparr> ''alice''
       = Some (Inr False)"
proof -
  have h: "BloomFilter_has sample_h32 \<lparr>bf_size = 10, bf_nbHashes = 4, bf_filter = [0, 0], bf_length = 0, bf_seed = 0x1234567890\<rparr> ''alice''
       = Some (Inr False)"
    by (simp add: eval_bits eval_alice)
  from empty_filter_rejects[OF _ _ _ eval_new_10_4 h] eval_new_10_4 h show ?thesis by simp
qed

section \<open>The binary format\<close>

subsection \<open>The codec\<close>

lemma weight_eq: "(2::nat) ^ (56 - index * 8) = 256 ^ (7 - index)"
proof -
  have "(2::nat) ^ (56 - index * 8) = (2 ^ 8) ^ (7 - index)"
    by (simp only: power_mult[symmetric]) (simp add: algebra_simps diff_mult_distrib2)
  then show ?thesis by simp
qed

text \<open>
  While the big-endian value of the bytes is at most \<open>2 ^ 53\<close>, no sum of
  \<^verbatim>\<open>uint8ArrayToInt64\<close> is rounded.
\<close>

lemma uint8ArrayToInt64_loop_eq:
  "int64 + sum_list (map (\<lambda>(index, byte). unat byte * 256 ^ (7 - index)) (enumerate index bytes))
     \<le> 2 ^ 53 \<Longrightarrow>
   uint8ArrayToInt64_loop int64 index bytes
     = int64 + sum_list (map (\<lambda>(index, byte). unat byte * 256 ^ (7 - index)) (enumerate index bytes))"
proof (induction bytes arbitrary: int64 index)
  case Nil
  show ?case by simp
next
  case (Cons byte bytes)
  let ?step = "int64 + unat byte * 256 ^ (7 - index)"
  from Cons.prems have "?step \<le> 2 ^ 53" by simp
  then have b: "binary64 ?step = ?step" by (rule binary64_exact)
  from Cons.prems have
    "?step + sum_list (map (\<lambda>(index, byte). unat byte * 256 ^ (7 - index)) (enumerate (Suc index) bytes))
       \<le> 2 ^ 53"
    by simp
  from Cons.IH[OF this] show ?case
    by (simp add: weight_eq b)
qed

lemma uint8ArrayToInt64_spec:
  "decodeU64_spec bytes \<le> 2 ^ 53 \<Longrightarrow> uint8ArrayToInt64 bytes = decodeU64_spec bytes"
  using uint8ArrayToInt64_loop_eq[of 0 0 bytes]
  by (simp add: uint8ArrayToInt64_def decodeU64_spec_def)

lemma ff_mask: "(0xff :: 32 word) = mask 8"
  by (simp add: mask_eq_exp_minus_1)

lemma byte_of_word:
  "k \<le> 24 \<Longrightarrow> (ucast (signed_drop_bit k (of_nat n :: 32 word) AND 0xff) :: 8 word) = of_nat (drop_bit k n)"
  unfolding ff_mask by (rule bit_eqI) (auto simp add: bit_simps)

lemma ucast_ucast_byte: "(ucast (ucast (b :: 8 word) :: 32 word) :: 8 word) = b"
  by (rule bit_eqI) (auto simp add: bit_simps)

lemma int32ToUint8Array_eq:
  "int32ToUint8Array n
     = [of_nat (drop_bit 24 n), of_nat (drop_bit 16 n), of_nat (drop_bit 8 n), of_nat n]"
proof -
  have r: "replicate 4 (0 :: 8 word) = [0, 0, 0, 0]"
    by (simp add: eval_nat_numeral)
  have three: "(3::nat) = Suc (Suc (Suc 0))" by simp
  have s: "signed_drop_bit 8 (signed_drop_bit 8 w) = signed_drop_bit 16 w"
       "signed_drop_bit 8 (signed_drop_bit 16 w) = signed_drop_bit 24 w" for w :: "32 word"
    by (rule bit_eqI, auto simp add: bit_simps)+
  have "int32ToUint8Array n
     = [ucast (signed_drop_bit 24 (of_nat n :: 32 word) AND 0xff),
        ucast (signed_drop_bit 16 (of_nat n :: 32 word) AND 0xff),
        ucast (signed_drop_bit 8 (of_nat n :: 32 word) AND 0xff),
        ucast (signed_drop_bit 0 (of_nat n :: 32 word) AND 0xff)]"
    unfolding int32ToUint8Array_def r three
    by (simp add: uint8_put_def s del: signed_drop_bit_signed_drop_bit)
  also have "\<dots> = [of_nat (drop_bit 24 n), of_nat (drop_bit 16 n), of_nat (drop_bit 8 n), of_nat (drop_bit 0 n)]"
    by (simp only: byte_of_word le_refl semiring_norm zero_le)
  finally show ?thesis by simp
qed

lemma length_int64ToUint8Array: "length (int64ToUint8Array n) = 8"
  by (simp add: int64ToUint8Array_def Let_def int32ToUint8Array_eq uint8_set_def)









subsection \<open>\<^verbatim>\<open>export\<close>, \<^verbatim>\<open>import\<close> and \<^verbatim>\<open>equals\<close>\<close>

lemma export_loop_eq:
  "length exportArray = 32 + length array \<Longrightarrow> todo + index = length array \<Longrightarrow>
   export_loop array todo index exportArray = take (32 + index) exportArray @ drop index array"
proof (induction todo arbitrary: index exportArray)
  case 0
  then show ?case by simp
next
  case (Suc todo)
  from Suc.prems have i: "index < length array" by simp
  let ?e = "exportArray[32 + index := array ! index]"
  have put: "uint8_put exportArray (32 + index) (toInt32 (uint8_get array index)) = ?e"
    using i Suc.prems(1) by (simp add: uint8_put_def uint8_get_def ucast_ucast_byte)
  have "export_loop array (Suc todo) index exportArray = export_loop array todo (index + 1) ?e"
    by (simp only: export_loop.simps put)
  also have "\<dots> = take (32 + (index + 1)) ?e @ drop (index + 1) array"
    using Suc.prems by (intro Suc.IH) simp_all
  also have "take (32 + (index + 1)) ?e = take (32 + index) exportArray @ [array ! index]"
  proof -
    have k: "32 + index < length ?e" using i Suc.prems(1) by simp
    have "take (Suc (32 + index)) ?e = take (32 + index) ?e @ [?e ! (32 + index)]"
      using k by (rule take_Suc_conv_app_nth)
    also have "\<dots> = take (32 + index) exportArray @ [array ! index]"
      using k by simp
    finally show ?thesis by simp
  qed
  also have "(take (32 + index) exportArray @ [array ! index]) @ drop (index + 1) array
               = take (32 + index) exportArray @ drop index array"
    using i by (simp add: Cons_nth_drop_Suc)
  finally show ?case .
qed

lemma uint8_set_append:
  "length pre = offset \<Longrightarrow> length source = length old \<Longrightarrow>
   uint8_set (pre @ old @ rest) source offset = pre @ source @ rest"
  by (simp add: uint8_set_def)

lemma export_eq:
  "BloomFilter_export f =
     int64ToUint8Array (bf_seed f) @ int64ToUint8Array (bf_nbHashes f) @
     int64ToUint8Array (bf_length f) @ int64ToUint8Array (bf_size f) @ bf_filter f"
proof -
  let ?z = "replicate 8 (0 :: 8 word)"
  let ?n = "length (bf_filter f)"
  let ?a = "int64ToUint8Array (bf_seed f)" and ?b = "int64ToUint8Array (bf_nbHashes f)"
  let ?c = "int64ToUint8Array (bf_length f)" and ?d = "int64ToUint8Array (bf_size f)"
  note l = length_int64ToUint8Array
  have r: "replicate (?n + 4 * 8) (0 :: 8 word) = [] @ ?z @ (?z @ ?z @ ?z @ replicate ?n 0)"
    by (simp add: replicate_add[symmetric])
  have s1: "uint8_set (replicate (?n + 4 * 8) 0) ?a 0 = ?a @ ?z @ ?z @ ?z @ replicate ?n 0"
    unfolding r by (subst uint8_set_append) (simp_all add: l)
  have s2: "uint8_set (?a @ ?z @ ?z @ ?z @ replicate ?n 0) ?b 8 = ?a @ ?b @ ?z @ ?z @ replicate ?n 0"
    using uint8_set_append[of ?a 8 ?b ?z "?z @ ?z @ replicate ?n 0"] by (simp add: l)
  have s3: "uint8_set (?a @ ?b @ ?z @ ?z @ replicate ?n 0) ?c 16 = ?a @ ?b @ ?c @ ?z @ replicate ?n 0"
    using uint8_set_append[of "?a @ ?b" 16 ?c ?z "?z @ replicate ?n 0"] by (simp add: l)
  have s4: "uint8_set (?a @ ?b @ ?c @ ?z @ replicate ?n 0) ?d 24 = ?a @ ?b @ ?c @ ?d @ replicate ?n 0"
    using uint8_set_append[of "?a @ ?b @ ?c" 24 ?d ?z "replicate ?n 0"] by (simp add: l)
  have "BloomFilter_export f
          = export_loop (bf_filter f) ?n 0 (?a @ ?b @ ?c @ ?d @ replicate ?n 0)"
    unfolding BloomFilter_export_def Let_def s1 s2 s3 s4 ..
  also have "\<dots> = take (32 + 0) (?a @ ?b @ ?c @ ?d @ replicate ?n 0) @ drop 0 (bf_filter f)"
    by (rule export_loop_eq) (simp_all add: l)
  also have "\<dots> = ?a @ ?b @ ?c @ ?d @ bf_filter f"
    by (simp add: l)
  finally show ?thesis .
qed


lemma import_eq:
  "BloomFilter_import can_allocate binaryBloomFilter =
     (if getUint8ArrayLength (uint8ArrayToInt64 (slice binaryBloomFilter 24 32)) \<le> 2 ^ 53 - 1
         \<and> can_allocate (getUint8ArrayLength (uint8ArrayToInt64 (slice binaryBloomFilter 24 32)))
      then Inr \<lparr>bf_size = uint8ArrayToInt64 (slice binaryBloomFilter 24 32),
                bf_nbHashes = uint8ArrayToInt64 (slice binaryBloomFilter 8 16),
                bf_filter = drop 32 binaryBloomFilter,
                bf_length = uint8ArrayToInt64 (slice binaryBloomFilter 16 24),
                bf_seed = uint8ArrayToInt64 (slice binaryBloomFilter 0 8)\<rparr>
      else Inl RangeError)"
  by (simp add: BloomFilter_import_def BloomFilter_new_def new_Uint8Array_def Let_def slice_def)









subsection \<open>Claims about the binary format\<close>




text \<open>
  C3. The claim is that the bit buffer has \<open>ceil(size / 8)\<close> bytes and the export
  \<open>32 + ceil(size / 8)\<close>, since \<^verbatim>\<open>getUint8ArrayLength(bitCount)\<close> is \<open>ceil(bitCount / 8)\<close>.
  The code computes \<open>bitCount div 8 + 1\<close> (lemma \<open>getUint8ArrayLength_small\<close>, for every
  bit count whose buffer the language allows): for a multiple of 8 the fill
  \<^verbatim>\<open>8 - remainder\<close> is 8 where 0 is needed. For 8 bits, which fit
  into 1 byte, the buffer has 2 bytes and the export 34.
\<close>

theorem getUint8ArrayLength_multiple_of_8:
  "getUint8ArrayLength 8 = 2
   \<and> BloomFilter_new enough_memory 8 1
       = Inr \<lparr>bf_size = 8, bf_nbHashes = 1, bf_filter = [0, 0], bf_length = 0, bf_seed = 0x1234567890\<rparr>
   \<and> length (BloomFilter_export
        \<lparr>bf_size = 8, bf_nbHashes = 1, bf_filter = [0, 0], bf_length = 0, bf_seed = 0x1234567890\<rparr>) = 34"
  by (simp add: BloomFilter_new_def new_Uint8Array_def getUint8ArrayLength_small enough_memory_def
        replicate_2 export_eq length_int64ToUint8Array)




text \<open>
  C9, as amended. For every byte buffer, of any length, \<^verbatim>\<open>BloomFilter.import\<close> raises no
  error but the \<^verbatim>\<open>RangeError\<close> of the allocation in the constructor, which it calls with
  the decoded size: it raises it when \<^verbatim>\<open>getUint8ArrayLength(size)\<close> is above \<open>2 ^ 53 - 1\<close> or
  more than the engine can allocate. Otherwise it returns a filter whose seed, hash
  count, element count and size are what \<^verbatim>\<open>uint8ArrayToInt64\<close> reads from the bytes present
  at \<open>[0, 8)\<close>, \<open>[8, 16)\<close>, \<open>[16, 24)\<close> and \<open>[24, 32)\<close>, and whose bit buffer is the bytes
  from offset 32 on, whatever their number. When the four fields, read as big-endian
  unsigned integers, are at most \<open>2 ^ 53\<close>, they are the fields of the filter, and the
  only error is that of an engine that cannot allocate \<open>size div 8 + 1\<close> bytes.
\<close>

theorem import_permissive:
  "BloomFilter_import can_allocate binaryBloomFilter =
     (if getUint8ArrayLength (uint8ArrayToInt64 (slice binaryBloomFilter 24 32)) \<le> 2 ^ 53 - 1
         \<and> can_allocate (getUint8ArrayLength (uint8ArrayToInt64 (slice binaryBloomFilter 24 32)))
      then Inr \<lparr>bf_size = uint8ArrayToInt64 (slice binaryBloomFilter 24 32),
                bf_nbHashes = uint8ArrayToInt64 (slice binaryBloomFilter 8 16),
                bf_filter = drop 32 binaryBloomFilter,
                bf_length = uint8ArrayToInt64 (slice binaryBloomFilter 16 24),
                bf_seed = uint8ArrayToInt64 (slice binaryBloomFilter 0 8)\<rparr>
      else Inl RangeError)
   \<and> (decodeU64_spec (slice binaryBloomFilter 0 8) \<le> 2 ^ 53
      \<and> decodeU64_spec (slice binaryBloomFilter 8 16) \<le> 2 ^ 53
      \<and> decodeU64_spec (slice binaryBloomFilter 16 24) \<le> 2 ^ 53
      \<and> decodeU64_spec (slice binaryBloomFilter 24 32) \<le> 2 ^ 53 \<longrightarrow>
      BloomFilter_import can_allocate binaryBloomFilter =
        (if can_allocate (decodeU64_spec (slice binaryBloomFilter 24 32) div 8 + 1)
         then Inr \<lparr>bf_size = decodeU64_spec (slice binaryBloomFilter 24 32),
                   bf_nbHashes = decodeU64_spec (slice binaryBloomFilter 8 16),
                   bf_filter = drop 32 binaryBloomFilter,
                   bf_length = decodeU64_spec (slice binaryBloomFilter 16 24),
                   bf_seed = decodeU64_spec (slice binaryBloomFilter 0 8)\<rparr>
         else Inl RangeError))"
proof (intro conjI impI)
  show "BloomFilter_import can_allocate binaryBloomFilter =
     (if getUint8ArrayLength (uint8ArrayToInt64 (slice binaryBloomFilter 24 32)) \<le> 2 ^ 53 - 1
         \<and> can_allocate (getUint8ArrayLength (uint8ArrayToInt64 (slice binaryBloomFilter 24 32)))
      then Inr \<lparr>bf_size = uint8ArrayToInt64 (slice binaryBloomFilter 24 32),
                bf_nbHashes = uint8ArrayToInt64 (slice binaryBloomFilter 8 16),
                bf_filter = drop 32 binaryBloomFilter,
                bf_length = uint8ArrayToInt64 (slice binaryBloomFilter 16 24),
                bf_seed = uint8ArrayToInt64 (slice binaryBloomFilter 0 8)\<rparr>
      else Inl RangeError)"
    by (rule import_eq)
next
  let ?size = "decodeU64_spec (slice binaryBloomFilter 24 32)"
  assume a: "decodeU64_spec (slice binaryBloomFilter 0 8) \<le> 2 ^ 53
      \<and> decodeU64_spec (slice binaryBloomFilter 8 16) \<le> 2 ^ 53
      \<and> decodeU64_spec (slice binaryBloomFilter 16 24) \<le> 2 ^ 53
      \<and> ?size \<le> 2 ^ 53"
  then have "?size < 2 ^ 56 - 8" by simp
  then have len: "getUint8ArrayLength ?size = ?size div 8 + 1"
    by (rule getUint8ArrayLength_small)
  from a have "?size div 8 \<le> 2 ^ 53 div 8" by (intro div_le_mono) simp
  then have "?size div 8 + 1 \<le> 2 ^ 53 - 1" by simp
  with a show "BloomFilter_import can_allocate binaryBloomFilter =
        (if can_allocate (?size div 8 + 1)
         then Inr \<lparr>bf_size = ?size,
                   bf_nbHashes = decodeU64_spec (slice binaryBloomFilter 8 16),
                   bf_filter = drop 32 binaryBloomFilter,
                   bf_length = decodeU64_spec (slice binaryBloomFilter 16 24),
                   bf_seed = decodeU64_spec (slice binaryBloomFilter 0 8)\<rparr>
         else Inl RangeError)"
    unfolding import_eq by (simp add: uint8ArrayToInt64_spec len)
qed

theorem import_permissive_witness:
  "decodeU64_spec (slice [0,0,0,0,0,0,0,7, 0,0,0,0,0,0,0,3, 0,0] 0 8) = 7
   \<and> decodeU64_spec (slice [0,0,0,0,0,0,0,7, 0,0,0,0,0,0,0,3, 0,0] 8 16) = 3
   \<and> decodeU64_spec (slice [0,0,0,0,0,0,0,7, 0,0,0,0,0,0,0,3, 0,0] 16 24) = 0
   \<and> decodeU64_spec (slice [0,0,0,0,0,0,0,7, 0,0,0,0,0,0,0,3, 0,0] 24 32) = 0
   \<and> BloomFilter_import enough_memory [0,0,0,0,0,0,0,7, 0,0,0,0,0,0,0,3, 0,0]
     = Inr \<lparr>bf_size = 0, bf_nbHashes = 3, bf_filter = [], bf_length = 0, bf_seed = 7\<rparr>"
  using import_permissive[of enough_memory "[0,0,0,0,0,0,0,7, 0,0,0,0,0,0,0,3, 0,0]"]
  by (simp add: slice_def decodeU64_spec_def enough_memory_def uint8ArrayToInt64_def
        binary64_exact getUint8ArrayLength_small)

text \<open>
  C9 as stated has \<^verbatim>\<open>import\<close> return a filter for every buffer, with the fields decoded
  big-endian. \<^verbatim>\<open>import\<close> first calls the constructor, which allocates a buffer for the
  decoded size before \<^verbatim>\<open>import\<close> replaces it: for a header whose size field is \<open>2 ^ 63\<close> the
  allocation raises \<^verbatim>\<open>RangeError\<close> in every engine, and for a size field of \<open>2 ^ 40\<close> it
  raises it in an engine whose arrays hold \<open>2 ^ 32\<close> bytes at most. And a hash count field
  that is \<open>2 ^ 53 + 1\<close> big-endian is read as \<open>2 ^ 53\<close>.
\<close>

theorem import_RangeError_counterexample:
  "BloomFilter_import enough_memory
       [0,0,0,0,0,0,0,0, 0,0,0,0,0,0,0,0, 0,0,0,0,0,0,0,0, 128,0,0,0,0,0,0,0]
     = Inl RangeError
   \<and> BloomFilter_import (\<lambda>n. n \<le> 2 ^ 32)
       [0,0,0,0,0,0,0,0, 0,0,0,0,0,0,0,1, 0,0,0,0,0,0,0,0, 0,0,1,0,0,0,0,0]
     = Inl RangeError
   \<and> BloomFilter_import enough_memory
       [0,0,0,0,0,0,0,0, 0,0x20,0,0,0,0,0,1, 0,0,0,0,0,0,0,0, 0,0,0,0,0,0,0,1, 0]
     = Inr \<lparr>bf_size = 1, bf_nbHashes = 2 ^ 53, bf_filter = [0], bf_length = 0, bf_seed = 0\<rparr>
   \<and> decodeU64_spec [0,0x20,0,0,0,0,0,1] = 2 ^ 53 + 1"
proof -
  have a: "BloomFilter_import enough_memory
       [0,0,0,0,0,0,0,0, 0,0,0,0,0,0,0,0, 0,0,0,0,0,0,0,0, 128,0,0,0,0,0,0,0]
     = Inl RangeError"
    unfolding import_eq using getUint8ArrayLength_2_63
    by (simp add: slice_def uint8ArrayToInt64_def binary64_2_63)
  have b: "BloomFilter_import (\<lambda>n. n \<le> 2 ^ 32)
       [0,0,0,0,0,0,0,0, 0,0,0,0,0,0,0,1, 0,0,0,0,0,0,0,0, 0,0,1,0,0,0,0,0]
     = Inl RangeError"
    unfolding import_eq
    by (simp add: slice_def uint8ArrayToInt64_def binary64_exact getUint8ArrayLength_small)
  have c: "BloomFilter_import enough_memory
       [0,0,0,0,0,0,0,0, 0,0x20,0,0,0,0,0,1, 0,0,0,0,0,0,0,0, 0,0,0,0,0,0,0,1, 0]
     = Inr \<lparr>bf_size = 1, bf_nbHashes = 2 ^ 53, bf_filter = [0], bf_length = 0, bf_seed = 0\<rparr>"
    unfolding import_eq
    by (simp add: slice_def uint8ArrayToInt64_def binary64_exact binary64_stuck_numeral
          getUint8ArrayLength_small enough_memory_def)
  have d: "decodeU64_spec [0,0x20,0,0,0,0,0,1] = 2 ^ 53 + 1"
    by (simp add: decodeU64_spec_def)
  from a b c d show ?thesis by simp
qed

end
